theory Spec2Isabelle
  imports Complex_Main
begin

section \<open>Strings\<close>

text \<open>
  Words and patterns are modelled as ASCII strings (\<open>char list\<close>). On ASCII text
  JavaScript's \<open>toLowerCase\<close> maps \<open>A\<close>..\<open>Z\<close> to \<open>a\<close>..\<open>z\<close> and leaves every
  other character alone, and \<open>trim\<close> strips the white space characters
  TAB, LF, VT, FF, CR and SPACE from both ends.
\<close>

definition lower_char :: "char \<Rightarrow> char" where
  "lower_char c =
     (let n = (of_char c :: nat) in if 65 \<le> n \<and> n \<le> 90 then char_of (n + 32) else c)"

definition toLowerCase :: "string \<Rightarrow> string" where
  "toLowerCase s = map lower_char s"

definition is_space :: "char \<Rightarrow> bool" where
  "is_space c = (let n = (of_char c :: nat) in (9 \<le> n \<and> n \<le> 13) \<or> n = 32)"

definition trim :: "string \<Rightarrow> string" where
  "trim s = rev (dropWhile is_space (rev (dropWhile is_space s)))"

text \<open>\<open>s.slice(-len)\<close> and \<open>s.slice(0, len)\<close> for \<open>0 < len\<close>.\<close>

definition slice_last :: "string \<Rightarrow> nat \<Rightarrow> string" where
  "slice_last s len = drop (length s - len) s"

definition slice_first :: "string \<Rightarrow> nat \<Rightarrow> string" where
  "slice_first s len = take len s"

definition endsWith :: "string \<Rightarrow> string \<Rightarrow> bool" where
  "endsWith s q = (length q \<le> length s \<and> drop (length s - length q) s = q)"

definition startsWith :: "string \<Rightarrow> string \<Rightarrow> bool" where
  "startsWith s q = (take (length q) s = q)"

section \<open>Affix index (\<open>wordIndices\<close>)\<close>

record AffixIndex =
  endsMap :: "string \<rightharpoonup> string list"
  startsMap :: "string \<rightharpoonup> string list"

definition empty_index :: AffixIndex where
  "empty_index = \<lparr>endsMap = Map.empty, startsMap = Map.empty\<rparr>"

text \<open>
  \<open>if (!m.has(key)) m.set(key, []); m.get(key).push(word)\<close>
\<close>

definition push_word :: "string \<Rightarrow> string \<Rightarrow> (string \<rightharpoonup> string list) \<Rightarrow> (string \<rightharpoonup> string list)" where
  "push_word key word m = m(key \<mapsto> (case m key of None \<Rightarrow> [] | Some ws \<Rightarrow> ws) @ [word])"

text \<open>The lengths visited by \<open>for (let len = 2; len <= Math.min(8, n); len++)\<close>.\<close>

definition affix_lengths :: "nat \<Rightarrow> nat list" where
  "affix_lengths n = [2 ..< Suc (min 8 n)]"

text \<open>The body of \<open>currentDictionary.forEach\<close>: two loops over the same lengths.\<close>

definition index_word :: "string \<Rightarrow> AffixIndex \<Rightarrow> AffixIndex" where
  "index_word word idx =
     (let lowerWord = toLowerCase word;
          lens = affix_lengths (length lowerWord)
      in \<lparr>endsMap = fold (\<lambda>len m. push_word (slice_last lowerWord len) word m) lens (endsMap idx),
          startsMap = fold (\<lambda>len m. push_word (slice_first lowerWord len) word m) lens (startsMap idx)\<rparr>)"

text \<open>\<open>None\<close> is the dictionary that has not been loaded (\<open>null\<close>).\<close>

definition wordIndices :: "string list option \<Rightarrow> AffixIndex" where
  "wordIndices currentDictionary =
     (case currentDictionary of
        None \<Rightarrow> empty_index
      | Some ws \<Rightarrow> fold index_word ws empty_index)"

text \<open>\<open>m.get(key) || []\<close>\<close>

definition get_or_empty :: "(string \<rightharpoonup> string list) \<Rightarrow> string \<Rightarrow> string list" where
  "get_or_empty m key = (case m key of None \<Rightarrow> [] | Some ws \<Rightarrow> ws)"

text \<open>
  The words a bucket is expected to hold: \<open>key\<close> is the last (first) \<open>n\<close> characters of the
  lower-cased word for a length \<open>n\<close> that the loops visit.
\<close>

definition has_ending :: "string \<Rightarrow> string \<Rightarrow> bool" where
  "has_ending key word =
     (let lowerWord = toLowerCase word; n = length key
      in 2 \<le> n \<and> n \<le> min 8 (length lowerWord) \<and> slice_last lowerWord n = key)"

definition has_beginning :: "string \<Rightarrow> string \<Rightarrow> bool" where
  "has_beginning key word =
     (let lowerWord = toLowerCase word; n = length key
      in 2 \<le> n \<and> n \<le> min 8 (length lowerWord) \<and> slice_first lowerWord n = key)"

section \<open>Pattern aggregation (\<open>patternsData\<close>)\<close>

text \<open>
  The objects of the source that carry a pattern share the fields \<open>pattern\<close> and
  \<open>length\<close>; the latter is \<open>plength\<close> here, and the \<open>type\<close> of a drill entry is
  \<open>ptype\<close>, with the values \<open>ends\<close> and \<open>starts\<close>.
\<close>

record Pattern =
  pattern :: string
  plength :: int

record PatternRecord = Pattern +
  endsWords :: "string list"
  endsCount :: nat
  startsWords :: "string list"
  startsCount :: nat
  totalCount :: nat

text \<open>
  \<open>Object.entries(prefixCounts)\<close>: the vocabulary as the list of its entries, each a
  pattern with its \<open>data.length\<close>.
\<close>

type_synonym vocabulary = "(string \<times> int) list"

text \<open>
  \<open>Map.prototype.set\<close> on an insertion-ordered map: an existing key keeps its
  position and gets the new value, a new key goes to the end.
\<close>

fun map_set :: "'k \<Rightarrow> 'v \<Rightarrow> ('k \<times> 'v) list \<Rightarrow> ('k \<times> 'v) list" where
  "map_set k v [] = [(k, v)]"
| "map_set k v ((k', v') # kvs) =
     (if k' = k then (k, v) # kvs else (k', v') # map_set k v kvs)"

text \<open>The body of \<open>Object.entries(prefixCounts).forEach\<close>.\<close>

definition group_pattern ::
  "AffixIndex \<Rightarrow> string \<times> int \<Rightarrow> (string \<times> PatternRecord) list \<Rightarrow> (string \<times> PatternRecord) list" where
  "group_pattern idx entry patternGroups =
     (let lowerPattern = toLowerCase (fst entry);
          wordsEndingWith = get_or_empty (endsMap idx) lowerPattern;
          wordsStartingWith = get_or_empty (startsMap idx) lowerPattern
      in if length wordsEndingWith \<ge> 2 \<or> length wordsStartingWith \<ge> 2
         then map_set lowerPattern
                \<lparr>pattern = lowerPattern,
                 plength = snd entry,
                 endsWords = wordsEndingWith,
                 endsCount = length wordsEndingWith,
                 startsWords = wordsStartingWith,
                 startsCount = length wordsStartingWith,
                 totalCount = length wordsEndingWith + length wordsStartingWith\<rparr>
                patternGroups
         else patternGroups)"

text \<open>
  \<open>Array.prototype.sort\<close> with a comparator. The language standard requires the sort to
  be stable; it is modelled as the insertion sort that puts \<open>a\<close> before the first
  \<open>b\<close> with \<open>cmp a b \<le> 0\<close>, inserting the elements from the right.
\<close>

fun insert_by :: "('a \<Rightarrow> 'a \<Rightarrow> int) \<Rightarrow> 'a \<Rightarrow> 'a list \<Rightarrow> 'a list" where
  "insert_by cmp a [] = [a]"
| "insert_by cmp a (b # bs) = (if cmp a b \<le> 0 then a # b # bs else b # insert_by cmp a bs)"

definition array_sort :: "('a \<Rightarrow> 'a \<Rightarrow> int) \<Rightarrow> 'a list \<Rightarrow> 'a list" where
  "array_sort cmp xs = foldr (insert_by cmp) xs []"

definition by_totalCount :: "PatternRecord \<Rightarrow> PatternRecord \<Rightarrow> int" where
  "by_totalCount a b = int (totalCount a) - int (totalCount b)"

definition patternGroups :: "string list \<Rightarrow> vocabulary \<Rightarrow> (string \<times> PatternRecord) list" where
  "patternGroups dict prefixCounts = fold (group_pattern (wordIndices (Some dict))) prefixCounts []"

definition patternsData :: "string list option \<Rightarrow> vocabulary option \<Rightarrow> PatternRecord list" where
  "patternsData currentDictionary prefixCounts =
     (case currentDictionary of
        None \<Rightarrow> []
      | Some dict \<Rightarrow>
          (case prefixCounts of
             None \<Rightarrow> []
           | Some pc \<Rightarrow> array_sort by_totalCount (map snd (patternGroups dict pc))))"

text \<open>
  The two lookups of a lower-cased pattern and the retention test of the source
  (\<open>either has 2+ words\<close>).
\<close>

definition ends_of :: "string list \<Rightarrow> string \<Rightarrow> string list" where
  "ends_of dict p = get_or_empty (endsMap (wordIndices (Some dict))) p"

definition starts_of :: "string list \<Rightarrow> string \<Rightarrow> string list" where
  "starts_of dict p = get_or_empty (startsMap (wordIndices (Some dict))) p"

definition retained :: "string list \<Rightarrow> string \<Rightarrow> bool" where
  "retained dict p = (length (ends_of dict p) \<ge> 2 \<or> length (starts_of dict p) \<ge> 2)"

text \<open>The elements of a list in the order of their first occurrences.\<close>

definition first_occurrences :: "'a list \<Rightarrow> 'a list" where
  "first_occurrences xs = rev (remdups (rev xs))"

text \<open>The total number of occurrences of a lower-cased pattern.\<close>

definition total_of :: "string list \<Rightarrow> string \<Rightarrow> nat" where
  "total_of dict p = length (ends_of dict p) + length (starts_of dict p)"

text \<open>What a group holds: the record built from the two lookups of its key.\<close>

definition group_of :: "string list \<Rightarrow> string \<times> PatternRecord \<Rightarrow> bool" where
  "group_of dict kr =
     (pattern (snd kr) = fst kr \<and>
      endsWords (snd kr) = ends_of dict (fst kr) \<and>
      endsCount (snd kr) = length (ends_of dict (fst kr)) \<and>
      startsWords (snd kr) = starts_of dict (fst kr) \<and>
      startsCount (snd kr) = length (starts_of dict (fst kr)) \<and>
      totalCount (snd kr) = total_of dict (fst kr) \<and>
      retained dict (fst kr))"

section \<open>Rarity classes (\<open>getRarityClass\<close>)\<close>

definition getRarityClass :: "int \<Rightarrow> string" where
  "getRarityClass count =
     (if count \<le> 5 then ''ultra-rare''
      else if count \<le> 10 then ''rare''
      else if count \<le> 50 then ''uncommon''
      else if count \<le> 200 then ''common''
      else ''very-common'')"

section \<open>Drill set (\<open>rarePatterns\<close>)\<close>

record DrillablePattern = Pattern +
  ptype :: string
  words :: "string list"
  count :: nat

text \<open>The body of \<open>patternsData.forEach\<close>: up to two pushes onto \<open>patterns\<close>.\<close>

definition split_pattern :: "PatternRecord \<Rightarrow> DrillablePattern list \<Rightarrow> DrillablePattern list" where
  "split_pattern p patterns =
     (let patterns1 =
            (if endsCount p \<ge> 2 \<and> endsCount p \<le> 15 \<and> plength p \<ge> 3
             then patterns @ [\<lparr>pattern = pattern p, plength = plength p, ptype = ''ends'',
                                words = endsWords p, count = endsCount p\<rparr>]
             else patterns)
      in if startsCount p \<ge> 2 \<and> startsCount p \<le> 15 \<and> plength p \<ge> 3
         then patterns1 @ [\<lparr>pattern = pattern p, plength = plength p, ptype = ''starts'',
                             words = startsWords p, count = startsCount p\<rparr>]
         else patterns1)"

definition matches_query :: "string \<Rightarrow> DrillablePattern \<Rightarrow> bool" where
  "matches_query query p =
     (if ptype p = ''ends'' then endsWith (pattern p) query
      else if ptype p = ''starts'' then startsWith (pattern p) query
      else False)"

definition rarePatterns :: "PatternRecord list \<Rightarrow> string \<Rightarrow> string \<Rightarrow> DrillablePattern list" where
  "rarePatterns records customPatternInput patternTypeFilter =
     (let patterns = fold split_pattern records [];
          patterns1 = (if patternTypeFilter \<noteq> ''all''
                       then filter (\<lambda>p. ptype p = patternTypeFilter) patterns
                       else patterns)
      in if trim customPatternInput \<noteq> []
         then filter (matches_query (trim (toLowerCase customPatternInput))) patterns1
         else patterns1)"

text \<open>
  The emission rule in the words of the specification: an ENDS entry if \<open>endsCount\<close> is in
  \<open>[2,15]\<close> and \<open>length \<ge> 3\<close>, then a STARTS entry under the same bounds on \<open>startsCount\<close>.
\<close>

definition spec_ends_entry :: "PatternRecord \<Rightarrow> DrillablePattern list" where
  "spec_ends_entry p =
     (if endsCount p \<in> {2..15} \<and> plength p \<ge> 3
      then [\<lparr>pattern = pattern p, plength = plength p, ptype = ''ends'',
              words = endsWords p, count = endsCount p\<rparr>]
      else [])"

definition spec_starts_entry :: "PatternRecord \<Rightarrow> DrillablePattern list" where
  "spec_starts_entry p =
     (if startsCount p \<in> {2..15} \<and> plength p \<ge> 3
      then [\<lparr>pattern = pattern p, plength = plength p, ptype = ''starts'',
              words = startsWords p, count = startsCount p\<rparr>]
      else [])"

definition spec_drill_entries :: "PatternRecord list \<Rightarrow> DrillablePattern list" where
  "spec_drill_entries records = concat (map (\<lambda>p. spec_ends_entry p @ spec_starts_entry p) records)"

section \<open>Learning session\<close>

record SessionState =
  selectedPatterns :: "string list"
  isStudying :: bool
  learnMode :: string
  currentChallengeIndex :: nat
  userAnswer :: string
  showAnswer :: bool
  correctAnswers :: nat
  totalAttempts :: nat
  foundWords :: "string set"
  attemptedWords :: "string set"
  currentWordIndex :: nat
  repeatCount :: nat
  hideWord :: bool

text \<open>The values given to \<open>useState\<close>.\<close>

definition initial_state :: SessionState where
  "initial_state =
     \<lparr>selectedPatterns = [], isStudying = False, learnMode = ''find'',
      currentChallengeIndex = 0, userAnswer = [], showAnswer = False,
      correctAnswers = 0, totalAttempts = 0, foundWords = {}, attemptedWords = {},
      currentWordIndex = 0, repeatCount = 0, hideWord = False\<rparr>"

definition pattern_key :: "DrillablePattern \<Rightarrow> string" where
  "pattern_key p = pattern p @ ''_'' @ ptype p"

text \<open>\<open>None\<close> is both \<open>null\<close> and the \<open>undefined\<close> of an unsuccessful \<open>find\<close>.\<close>

definition currentChallenge :: "DrillablePattern list \<Rightarrow> SessionState \<Rightarrow> DrillablePattern option" where
  "currentChallenge rare s =
     (if \<not> isStudying s \<or> length (selectedPatterns s) = 0 then None
      else let patternKey =
                 selectedPatterns s ! (currentChallengeIndex s mod length (selectedPatterns s))
           in find (\<lambda>p. pattern_key p = patternKey) rare)"

text \<open>\<open>onChange\<close> of the answer field.\<close>

definition setUserAnswer :: "string \<Rightarrow> SessionState \<Rightarrow> SessionState" where
  "setUserAnswer v s = s\<lparr>userAnswer := v\<rparr>"

definition togglePatternSelection :: "string \<Rightarrow> SessionState \<Rightarrow> SessionState" where
  "togglePatternSelection patternKey s =
     s\<lparr>selectedPatterns :=
         (if patternKey \<in> set (selectedPatterns s)
          then filter (\<lambda>p. p \<noteq> patternKey) (selectedPatterns s)
          else selectedPatterns s @ [patternKey])\<rparr>"

text \<open>
  \<open>startStudy\<close> returns the text of the alert it raises, if any, and the state.
\<close>

definition startStudy :: "string \<Rightarrow> SessionState \<Rightarrow> string option \<times> SessionState" where
  "startStudy mode s =
     (if length (selectedPatterns s) = 0
      then (Some ''Please select at least one pattern to study!'', s)
      else (None,
            s\<lparr>learnMode := mode, isStudying := True, currentChallengeIndex := 0,
              correctAnswers := 0, totalAttempts := 0, showAnswer := False,
              userAnswer := [], foundWords := {}, attemptedWords := {},
              currentWordIndex := 0, repeatCount := 0, hideWord := False\<rparr>))"

text \<open>The candidate word that \<open>checkAnswer\<close> builds from the typed text.\<close>

definition fullWord :: "DrillablePattern \<Rightarrow> string \<Rightarrow> string" where
  "fullWord c answer =
     (let userInput = trim (toLowerCase answer);
          pat = toLowerCase (pattern c)
      in if ptype c = ''ends'' then userInput @ pat else pat @ userInput)"

text \<open>Truthiness of the result of \<open>Array.prototype.find\<close> on strings.\<close>

definition truthy :: "string option \<Rightarrow> bool" where
  "truthy m = (case m of None \<Rightarrow> False | Some w \<Rightarrow> w \<noteq> [])"

definition checkAnswer :: "DrillablePattern list \<Rightarrow> SessionState \<Rightarrow> SessionState" where
  "checkAnswer rare s =
     (case currentChallenge rare s of
        None \<Rightarrow> s
      | Some c \<Rightarrow>
          if trim (userAnswer s) = [] then s
          else let fw = fullWord c (userAnswer s)
               in if fw \<in> attemptedWords s then s\<lparr>userAnswer := []\<rparr>
                  else let matchedWord = find (\<lambda>dictWord. toLowerCase dictWord = fw) (words c);
                           s1 = s\<lparr>attemptedWords := insert fw (attemptedWords s)\<rparr>;
                           s2 = (if truthy matchedWord \<and> fw \<notin> foundWords s
                                 then s1\<lparr>foundWords := insert fw (foundWords s1),
                                         correctAnswers := correctAnswers s1 + 1\<rparr>
                                 else s1)
                       in s2\<lparr>totalAttempts := totalAttempts s2 + 1, userAnswer := []\<rparr>)"

definition showAllWords :: "SessionState \<Rightarrow> SessionState" where
  "showAllWords s =
     (let s1 = s\<lparr>showAnswer := True\<rparr>
      in if foundWords s = {} then s1\<lparr>totalAttempts := totalAttempts s1 + 1\<rparr> else s1)"

text \<open>
  \<open>checkRepeatWord\<close> reads \<open>words[currentWordIndex]\<close> and calls \<open>toLowerCase\<close> on it: out
  of range the read gives \<open>undefined\<close> and the call throws a \<open>TypeError\<close> before any state
  is set.
\<close>

datatype js_error = TypeError

definition checkRepeatWord :: "DrillablePattern list \<Rightarrow> SessionState \<Rightarrow> js_error + SessionState" where
  "checkRepeatWord rare s =
     (case currentChallenge rare s of
        None \<Rightarrow> Inr s
      | Some c \<Rightarrow>
          if trim (userAnswer s) = [] then Inr s
          else if currentWordIndex s \<ge> length (words c) then Inl TypeError
          else let currentWord = words c ! currentWordIndex s;
                   userWord = toLowerCase (trim (userAnswer s));
                   correctWord = toLowerCase currentWord;
                   s1 = (if userWord = correctWord
                         then (if hideWord s
                               then s\<lparr>currentWordIndex := currentWordIndex s + 1,
                                      repeatCount := 0, hideWord := False,
                                      correctAnswers := correctAnswers s + 1\<rparr>
                               else let newRepeatCount = repeatCount s + 1;
                                        s0 = s\<lparr>repeatCount := newRepeatCount\<rparr>
                                    in if newRepeatCount \<ge> 3
                                       then s0\<lparr>hideWord := True, repeatCount := 0\<rparr>
                                       else s0)
                         else s)
               in Inr (s1\<lparr>totalAttempts := totalAttempts s1 + 1, userAnswer := []\<rparr>))"

definition skipRepeatWord :: "SessionState \<Rightarrow> SessionState" where
  "skipRepeatWord s =
     s\<lparr>currentWordIndex := currentWordIndex s + 1, repeatCount := 0, hideWord := False,
       userAnswer := []\<rparr>"

definition nextChallenge :: "SessionState \<Rightarrow> SessionState" where
  "nextChallenge s =
     s\<lparr>currentChallengeIndex := currentChallengeIndex s + 1, userAnswer := [],
       showAnswer := False, foundWords := {}, attemptedWords := {},
       currentWordIndex := 0, repeatCount := 0, hideWord := False\<rparr>"

definition resetStudy :: "SessionState \<Rightarrow> SessionState" where
  "resetStudy s =
     s\<lparr>isStudying := False, selectedPatterns := [], currentChallengeIndex := 0,
       correctAnswers := 0, totalAttempts := 0, showAnswer := False, userAnswer := [],
       foundWords := {}, attemptedWords := {}, currentWordIndex := 0, repeatCount := 0,
       hideWord := False, learnMode := ''find''\<rparr>"

definition selectAllRare :: "DrillablePattern list \<Rightarrow> SessionState \<Rightarrow> SessionState" where
  "selectAllRare rare s = s\<lparr>selectedPatterns := map pattern_key rare\<rparr>"

text \<open>
  The repeat-mode card of the learn page shows the answer field with the Submit and Skip
  buttons only while \<open>currentWordIndex < (currentChallenge?.words.length || 0)\<close>; past
  that it shows the completion message with the Next Pattern button.
\<close>

definition repeat_word_shown :: "DrillablePattern list \<Rightarrow> SessionState \<Rightarrow> bool" where
  "repeat_word_shown rare s =
     (isStudying s \<and> learnMode s = ''repeat'' \<and>
      currentWordIndex s < (case currentChallenge rare s of None \<Rightarrow> 0 | Some c \<Rightarrow> length (words c)))"

text \<open>Typing a text into the answer field and submitting it, in either protocol.\<close>

definition submitGuess :: "DrillablePattern list \<Rightarrow> string \<Rightarrow> SessionState \<Rightarrow> SessionState" where
  "submitGuess rare raw s = checkAnswer rare (setUserAnswer raw s)"

definition submitGuesses :: "DrillablePattern list \<Rightarrow> string list \<Rightarrow> SessionState \<Rightarrow> SessionState" where
  "submitGuesses rare raws s = fold (submitGuess rare) raws s"

definition submitRepeat :: "DrillablePattern list \<Rightarrow> string \<Rightarrow> SessionState \<Rightarrow> js_error + SessionState" where
  "submitRepeat rare raw s = checkRepeatWord rare (setUserAnswer raw s)"

fun submitRepeats :: "DrillablePattern list \<Rightarrow> string list \<Rightarrow> SessionState \<Rightarrow> js_error + SessionState" where
  "submitRepeats rare [] s = Inr s"
| "submitRepeats rare (raw # raws) s =
     (case submitRepeat rare raw s of
        Inl e \<Rightarrow> Inl e
      | Inr s' \<Rightarrow> submitRepeats rare raws s')"

text \<open>A typed text is a correct answer for the current word of the challenge.\<close>

definition correct_for :: "DrillablePattern \<Rightarrow> SessionState \<Rightarrow> string \<Rightarrow> bool" where
  "correct_for c s raw =
     (trim raw \<noteq> [] \<and> toLowerCase (trim raw) = toLowerCase (words c ! currentWordIndex s))"

text \<open>A typed text builds a candidate that matches a word of the challenge.\<close>

definition valid_guess :: "DrillablePattern \<Rightarrow> string \<Rightarrow> bool" where
  "valid_guess c raw =
     (trim raw \<noteq> [] \<and> (\<exists>w \<in> set (words c). toLowerCase w = fullWord c raw))"

text \<open>
  The events of a session. An exception thrown by a handler leaves the state as it was.
\<close>

datatype session_op =
    Toggle string
  | SelectAll
  | Start string
  | TypeAnswer string
  | CheckAnswer
  | ShowAllWords
  | CheckRepeatWord
  | SkipRepeatWord
  | NextChallenge
  | ResetStudy

fun session_step :: "DrillablePattern list \<Rightarrow> session_op \<Rightarrow> SessionState \<Rightarrow> SessionState" where
  "session_step rare (Toggle k) s = togglePatternSelection k s"
| "session_step rare SelectAll s = selectAllRare rare s"
| "session_step rare (Start mode) s = snd (startStudy mode s)"
| "session_step rare (TypeAnswer v) s = setUserAnswer v s"
| "session_step rare CheckAnswer s = checkAnswer rare s"
| "session_step rare ShowAllWords s = showAllWords s"
| "session_step rare CheckRepeatWord s =
     (case checkRepeatWord rare s of Inl e \<Rightarrow> s | Inr s' \<Rightarrow> s')"
| "session_step rare SkipRepeatWord s = skipRepeatWord s"
| "session_step rare NextChallenge s = nextChallenge s"
| "session_step rare ResetStudy s = resetStudy s"

definition score_invariant :: "SessionState \<Rightarrow> bool" where
  "score_invariant s = (correctAnswers s \<le> totalAttempts s \<and> foundWords s \<subseteq> attemptedWords s)"

text \<open>
  The percentage of the score line,
  \<open>totalAttempts > 0 ? Math.round((correctAnswers / totalAttempts) * 100) : 0\<close>,
  over the reals (\<open>round\<close> rounds a half up, as \<open>Math.round\<close> does).
\<close>

definition scorePercent :: "SessionState \<Rightarrow> int" where
  "scorePercent s =
     (if totalAttempts s > 0
      then round (real (correctAnswers s) / real (totalAttempts s) * 100)
      else 0)"

text \<open>
  A session for the examples: the ENDS side of \<open>ing\<close> with two words, selected and
  started in the repeat-after-me protocol; and a run of events from the initial state.
\<close>

definition example_session :: SessionState where
  "example_session = initial_state\<lparr>selectedPatterns := [''ing_ends''], isStudying := True,
                             learnMode := ''repeat''\<rparr>"

definition example_challenge :: DrillablePattern where
  "example_challenge = \<lparr>pattern = ''ing'', plength = 3, ptype = ''ends'',
               words = [''Running'', ''jumping''], count = 2\<rparr>"

definition example_events :: "session_op list" where
  "example_events = [Toggle ''ing_ends'', Start ''find'', TypeAnswer '' Runn'', CheckAnswer,
                     TypeAnswer ''xx'', CheckAnswer]"

definition example_find_session :: SessionState where
  "example_find_session =
     snd (startStudy ''find'' (togglePatternSelection ''ing_ends'' initial_state))"

section \<open>Properties of the rarity classes\<close>

text \<open>
  C7. The rarity class is a function of the count alone, with inclusive upper bounds:
  a count of at most 5 is ultra-rare, 6 to 10 rare, 11 to 50 uncommon, 51 to 200 common,
  and 201 or more very-common.
\<close>

theorem getRarityClass_tiers:
  "(c \<le> 5 \<longrightarrow> getRarityClass c = ''ultra-rare'') \<and>
   (6 \<le> c \<and> c \<le> 10 \<longrightarrow> getRarityClass c = ''rare'') \<and>
   (11 \<le> c \<and> c \<le> 50 \<longrightarrow> getRarityClass c = ''uncommon'') \<and>
   (51 \<le> c \<and> c \<le> 200 \<longrightarrow> getRarityClass c = ''common'') \<and>
   (201 \<le> c \<longrightarrow> getRarityClass c = ''very-common'')"
  by (simp add: getRarityClass_def)

text \<open>The boundary counts 5, 6, 10, 11, 50, 51, 200 and 201.\<close>

theorem getRarityClass_tiers_witness:
  "getRarityClass 5 = ''ultra-rare'' \<and> getRarityClass 6 = ''rare'' \<and>
   getRarityClass 10 = ''rare'' \<and> getRarityClass 11 = ''uncommon'' \<and>
   getRarityClass 50 = ''uncommon'' \<and> getRarityClass 51 = ''common'' \<and>
   getRarityClass 200 = ''common'' \<and> getRarityClass 201 = ''very-common''"
  using getRarityClass_tiers [of 5] getRarityClass_tiers [of 6] getRarityClass_tiers [of 10]
    getRarityClass_tiers [of 11] getRarityClass_tiers [of 50] getRarityClass_tiers [of 51]
    getRarityClass_tiers [of 200] getRarityClass_tiers [of 201]
  by simp

section \<open>Properties of the affix index\<close>

lemma get_or_empty_push:
  "get_or_empty (push_word k w m) k' = (if k' = k then get_or_empty m k @ [w] else get_or_empty m k')"
  by (simp add: get_or_empty_def push_word_def)

lemma fold_push_word:
  "distinct lens \<Longrightarrow> inj_on f (set lens) \<Longrightarrow>
   get_or_empty (fold (\<lambda>len m. push_word (f len) w m) lens m) k =
     (if k \<in> f ` set lens then get_or_empty m k @ [w] else get_or_empty m k)"
proof (induction lens arbitrary: m)
  case Nil
  then show ?case by simp
next
  case (Cons l ls)
  have d: "distinct ls" and i: "inj_on f (set ls)" and nl: "f l \<notin> f ` set ls"
    using Cons.prems by auto
  show ?case
    using Cons.IH [OF d i, of "push_word (f l) w m"] nl
    by (auto simp: get_or_empty_push)
qed

lemma length_slice_last: "len \<le> length s \<Longrightarrow> length (slice_last s len) = len"
  by (simp add: slice_last_def)

lemma length_slice_first: "len \<le> length s \<Longrightarrow> length (slice_first s len) = len"
  by (simp add: slice_first_def)

lemma set_affix_lengths: "set (affix_lengths n) = {l. 2 \<le> l \<and> l \<le> min 8 n}"
  by (auto simp: affix_lengths_def)

lemma distinct_affix_lengths: "distinct (affix_lengths n)"
  by (simp add: affix_lengths_def)

lemma inj_slice_last: "inj_on (slice_last s) (set (affix_lengths (length s)))"
  by (rule inj_onI) (metis (no_types, lifting) length_slice_last set_affix_lengths mem_Collect_eq min.boundedE)

lemma inj_slice_first: "inj_on (slice_first s) (set (affix_lengths (length s)))"
  by (rule inj_onI) (metis (no_types, lifting) length_slice_first set_affix_lengths mem_Collect_eq min.boundedE)

lemma ending_image:
  "key \<in> slice_last (toLowerCase w) ` set (affix_lengths (length (toLowerCase w))) \<longleftrightarrow> has_ending key w"
proof
  assume "key \<in> slice_last (toLowerCase w) ` set (affix_lengths (length (toLowerCase w)))"
  then show "has_ending key w"
    by (auto simp: has_ending_def set_affix_lengths Let_def length_slice_last)
next
  assume h: "has_ending key w"
  then have "length key \<in> set (affix_lengths (length (toLowerCase w)))"
    by (simp add: has_ending_def set_affix_lengths Let_def)
  moreover have "slice_last (toLowerCase w) (length key) = key"
    using h by (simp add: has_ending_def Let_def)
  ultimately show "key \<in> slice_last (toLowerCase w) ` set (affix_lengths (length (toLowerCase w)))"
    by (metis imageI)
qed

lemma beginning_image:
  "key \<in> slice_first (toLowerCase w) ` set (affix_lengths (length (toLowerCase w))) \<longleftrightarrow> has_beginning key w"
proof
  assume "key \<in> slice_first (toLowerCase w) ` set (affix_lengths (length (toLowerCase w)))"
  then show "has_beginning key w"
    by (auto simp: has_beginning_def set_affix_lengths Let_def length_slice_first)
next
  assume h: "has_beginning key w"
  then have "length key \<in> set (affix_lengths (length (toLowerCase w)))"
    by (simp add: has_beginning_def set_affix_lengths Let_def)
  moreover have "slice_first (toLowerCase w) (length key) = key"
    using h by (simp add: has_beginning_def Let_def)
  ultimately show "key \<in> slice_first (toLowerCase w) ` set (affix_lengths (length (toLowerCase w)))"
    by (metis imageI)
qed

lemma index_word_ends:
  "get_or_empty (endsMap (index_word w idx)) key =
     get_or_empty (endsMap idx) key @ (if has_ending key w then [w] else [])"
  using fold_push_word [of "affix_lengths (length (toLowerCase w))" "slice_last (toLowerCase w)" w "endsMap idx" key]
  by (simp add: index_word_def Let_def inj_slice_last ending_image distinct_affix_lengths)

lemma index_word_starts:
  "get_or_empty (startsMap (index_word w idx)) key =
     get_or_empty (startsMap idx) key @ (if has_beginning key w then [w] else [])"
  using fold_push_word [of "affix_lengths (length (toLowerCase w))" "slice_first (toLowerCase w)" w "startsMap idx" key]
  by (simp add: index_word_def Let_def inj_slice_first beginning_image distinct_affix_lengths)

lemma fold_index_word_ends:
  "get_or_empty (endsMap (fold index_word ws idx)) key =
     get_or_empty (endsMap idx) key @ filter (has_ending key) ws"
  by (induction ws arbitrary: idx) (simp_all add: index_word_ends)

lemma fold_index_word_starts:
  "get_or_empty (startsMap (fold index_word ws idx)) key =
     get_or_empty (startsMap idx) key @ filter (has_beginning key) ws"
  by (induction ws arbitrary: idx) (simp_all add: index_word_starts)

lemma ends_bucket: "get_or_empty (endsMap (wordIndices (Some ws))) key = filter (has_ending key) ws"
  by (simp add: wordIndices_def fold_index_word_ends) (simp add: empty_index_def get_or_empty_def)

lemma starts_bucket: "get_or_empty (startsMap (wordIndices (Some ws))) key = filter (has_beginning key) ws"
  by (simp add: wordIndices_def fold_index_word_starts) (simp add: empty_index_def get_or_empty_def)

text \<open>
  C4 (as the code has it). After indexing a word list, every word \<open>W\<close> of the list is, in
  its original casing, in the bucket \<open>endsMap[lower(W)[-L:]]\<close> and in the bucket
  \<open>startsMap[lower(W)[:L]]\<close> for every length \<open>L\<close> from 2 to \<open>min(8, |W|)\<close>; and the bucket
  of a key is the word list restricted to the words that have the key as such an ending
  (beginning), in the order and with the multiplicity of the word list.
\<close>

theorem wordIndices_buckets:
  "(W \<in> set ws \<and> 2 \<le> L \<and> L \<le> min 8 (length W) \<longrightarrow>
      W \<in> set (get_or_empty (endsMap (wordIndices (Some ws))) (slice_last (toLowerCase W) L)) \<and>
      W \<in> set (get_or_empty (startsMap (wordIndices (Some ws))) (slice_first (toLowerCase W) L))) \<and>
   get_or_empty (endsMap (wordIndices (Some ws))) key = filter (has_ending key) ws \<and>
   get_or_empty (startsMap (wordIndices (Some ws))) key = filter (has_beginning key) ws"
proof -
  have "has_ending (slice_last (toLowerCase W) L) W \<and> has_beginning (slice_first (toLowerCase W) L) W"
    if "2 \<le> L" "L \<le> min 8 (length W)"
    using that
    by (simp add: has_ending_def has_beginning_def Let_def length_slice_last length_slice_first toLowerCase_def)
  then show ?thesis
    by (simp add: ends_bucket starts_bucket)
qed

text \<open>The words \<open>Running\<close> and \<open>jumping\<close> under the key \<open>ing\<close>, and \<open>Running\<close> under \<open>run\<close>.\<close>

theorem wordIndices_buckets_witness:
  "''Running'' \<in> set [''Running'', ''jumping''] \<and> (2::nat) \<le> 3 \<and> (3::nat) \<le> min 8 (length ''Running'') \<and>
   ''Running'' \<in> set (get_or_empty (endsMap (wordIndices (Some [''Running'', ''jumping'']))) ''ing'') \<and>
   ''Running'' \<in> set (get_or_empty (startsMap (wordIndices (Some [''Running'', ''jumping'']))) ''run'') \<and>
   get_or_empty (endsMap (wordIndices (Some [''Running'', ''jumping'']))) ''ing'' = [''Running'', ''jumping'']"
proof -
  have a: "slice_last (toLowerCase ''Running'') 3 = ''ing''" by code_simp
  have b: "slice_first (toLowerCase ''Running'') 3 = ''run''" by code_simp
  have c: "filter (has_ending ''ing'') [''Running'', ''jumping''] = [''Running'', ''jumping'']" by code_simp
  show ?thesis
    using wordIndices_buckets [of "''Running''" "[''Running'', ''jumping'']" 3 "''ing''"]
    unfolding a b c by simp
qed

text \<open>
  The buckets hold the words as they are spelled in the list, not their lower-case
  forms: after indexing the single word \<open>AB\<close>, the buckets of the key \<open>ab\<close> hold \<open>AB\<close>
  and do not hold \<open>ab\<close>.
\<close>

theorem wordIndices_lower_counterexample:
  "''AB'' \<in> set [''AB''] \<and> (2::nat) \<le> 2 \<and> (2::nat) \<le> min 8 (length ''AB'') \<and>
   toLowerCase ''AB'' \<notin> set (get_or_empty (endsMap (wordIndices (Some [''AB'']))) (slice_last (toLowerCase ''AB'') 2)) \<and>
   toLowerCase ''AB'' \<notin> set (get_or_empty (startsMap (wordIndices (Some [''AB'']))) (slice_first (toLowerCase ''AB'') 2))"
  by code_simp

section \<open>Properties of the pattern aggregation\<close>

lemma map_fst_map_set:
  "map fst (map_set k v kvs) = (if k \<in> fst ` set kvs then map fst kvs else map fst kvs @ [k])"
  by (induction k v kvs rule: map_set.induct) auto

lemma set_map_set: "set (map_set k v kvs) \<subseteq> insert (k, v) (set kvs)"
  by (induction k v kvs rule: map_set.induct) auto

lemma first_occurrences_snoc:
  "first_occurrences (xs @ [x]) = (if x \<in> set xs then first_occurrences xs else first_occurrences xs @ [x])"
  by (simp add: first_occurrences_def)

lemma set_first_occurrences: "set (first_occurrences xs) = set xs"
  by (simp add: first_occurrences_def)

lemma group_pattern_keys:
  "map fst (group_pattern (wordIndices (Some dict)) e groups) =
     (if retained dict (toLowerCase (fst e)) \<and> toLowerCase (fst e) \<notin> fst ` set groups
      then map fst groups @ [toLowerCase (fst e)] else map fst groups)"
  by (simp add: group_pattern_def Let_def map_fst_map_set retained_def ends_of_def starts_of_def)

lemma group_pattern_groups:
  assumes "\<forall>kr \<in> set groups. group_of dict kr"
  shows "\<forall>kr \<in> set (group_pattern (wordIndices (Some dict)) e groups). group_of dict kr"
proof (cases "retained dict (toLowerCase (fst e))")
  case False
  then show ?thesis
    using assms by (simp add: group_pattern_def Let_def retained_def ends_of_def starts_of_def)
next
  case True
  let ?k = "toLowerCase (fst e)"
  let ?r = "\<lparr>pattern = ?k, plength = snd e,
             endsWords = ends_of dict ?k, endsCount = length (ends_of dict ?k),
             startsWords = starts_of dict ?k, startsCount = length (starts_of dict ?k),
             totalCount = length (ends_of dict ?k) + length (starts_of dict ?k)\<rparr>"
  have eq: "group_pattern (wordIndices (Some dict)) e groups = map_set ?k ?r groups"
    using True by (simp add: group_pattern_def Let_def retained_def ends_of_def starts_of_def)
  have "group_of dict (?k, ?r)"
    using True by (simp add: group_of_def total_of_def)
  then show ?thesis
    unfolding eq using assms set_map_set [of ?k ?r groups] by auto
qed

lemma patternGroups_snoc:
  "patternGroups dict (pc @ [e]) = group_pattern (wordIndices (Some dict)) e (patternGroups dict pc)"
  by (simp add: patternGroups_def)

lemma patternGroups_keys:
  "map fst (patternGroups dict pc) =
     first_occurrences (filter (retained dict) (map toLowerCase (map fst pc)))"
proof (induction pc rule: rev_induct)
  case Nil
  then show ?case by (simp add: patternGroups_def first_occurrences_def)
next
  case (snoc e pc)
  have s: "fst ` set (patternGroups dict pc) = set (filter (retained dict) (map toLowerCase (map fst pc)))"
    using snoc.IH set_first_occurrences by (metis set_map)
  show ?case
    unfolding patternGroups_snoc group_pattern_keys snoc.IH s
    by (auto simp: first_occurrences_snoc)
qed

lemma patternGroups_groups: "\<forall>kr \<in> set (patternGroups dict pc). group_of dict kr"
proof (induction pc rule: rev_induct)
  case Nil
  then show ?case by (simp add: patternGroups_def)
next
  case (snoc e pc)
  then show ?case
    unfolding patternGroups_snoc by (rule group_pattern_groups)
qed

lemma filter_insert_by:
  "filter (\<lambda>r. totalCount r = k) (insert_by by_totalCount a xs) =
     (if totalCount a = k then a # filter (\<lambda>r. totalCount r = k) xs
      else filter (\<lambda>r. totalCount r = k) xs)"
  by (induction xs) (auto simp: by_totalCount_def)

lemma set_insert_by: "set (insert_by cmp a xs) = insert a (set xs)"
  by (induction xs) auto

lemma sorted_insert_by:
  "sorted (map totalCount xs) \<Longrightarrow> sorted (map totalCount (insert_by by_totalCount a xs))"
  by (induction xs) (auto simp: by_totalCount_def set_insert_by)

lemma set_array_sort: "set (array_sort cmp xs) = set xs"
  by (induction xs) (simp_all add: array_sort_def set_insert_by)

lemma sorted_array_sort: "sorted (map totalCount (array_sort by_totalCount xs))"
  by (induction xs) (simp_all add: array_sort_def sorted_insert_by)

lemma filter_array_sort:
  "filter (\<lambda>r. totalCount r = k) (array_sort by_totalCount xs) = filter (\<lambda>r. totalCount r = k) xs"
  by (induction xs) (simp_all add: array_sort_def filter_insert_by)

lemma patternsData_Some:
  "patternsData (Some dict) (Some pc) = array_sort by_totalCount (map snd (patternGroups dict pc))"
  by (simp add: patternsData_def)

lemma map_pattern_groups:
  "\<forall>kr \<in> set groups. group_of dict kr \<Longrightarrow>
   map pattern (filter (\<lambda>r. totalCount r = k) (map snd groups)) =
     filter (\<lambda>p. total_of dict p = k) (map fst groups)"
  by (induction groups) (auto simp: group_of_def)

lemma patternGroups_key_set:
  "fst ` set (patternGroups dict pc) = {k \<in> toLowerCase ` fst ` set pc. retained dict k}"
proof -
  have "fst ` set (patternGroups dict pc) = set (map fst (patternGroups dict pc))"
    by simp
  also have "\<dots> = set (filter (retained dict) (map toLowerCase (map fst pc)))"
    by (simp only: patternGroups_keys set_first_occurrences)
  also have "\<dots> = {k \<in> toLowerCase ` fst ` set pc. retained dict k}"
    by auto
  finally show ?thesis .
qed

lemma group_of_fields:
  assumes "kr \<in> set (patternGroups dict pc)"
  shows "totalCount (snd kr) = endsCount (snd kr) + startsCount (snd kr)"
    and "totalCount (snd kr) \<ge> 2"
    and "endsCount (snd kr) \<ge> 2 \<or> startsCount (snd kr) \<ge> 2"
    and "endsCount (snd kr) = length (ends_of dict (pattern (snd kr)))"
    and "startsCount (snd kr) = length (starts_of dict (pattern (snd kr)))"
    and "pattern (snd kr) = fst kr"
proof -
  have g: "group_of dict kr"
    using assms patternGroups_groups by blast
  show "totalCount (snd kr) = endsCount (snd kr) + startsCount (snd kr)"
    using g by (simp add: group_of_def total_of_def)
  show "endsCount (snd kr) \<ge> 2 \<or> startsCount (snd kr) \<ge> 2"
    using g by (simp add: group_of_def retained_def)
  then show "totalCount (snd kr) \<ge> 2"
    using g by (auto simp add: group_of_def total_of_def)
  show "endsCount (snd kr) = length (ends_of dict (pattern (snd kr)))"
    using g by (simp add: group_of_def)
  show "startsCount (snd kr) = length (starts_of dict (pattern (snd kr)))"
    using g by (simp add: group_of_def)
  show "pattern (snd kr) = fst kr"
    using g by (simp add: group_of_def)
qed

lemma set_patternsData:
  "set (patternsData (Some dict) (Some pc)) = snd ` set (patternGroups dict pc)"
  by (simp add: patternsData_Some set_array_sort)

lemma patternsData_has_pattern:
  "(\<exists>r \<in> set (patternsData (Some dict) (Some pc)). pattern r = k) \<longleftrightarrow>
   k \<in> fst ` set (patternGroups dict pc)"
proof
  assume "\<exists>r \<in> set (patternsData (Some dict) (Some pc)). pattern r = k"
  then obtain kr where kr: "kr \<in> set (patternGroups dict pc)" and p: "pattern (snd kr) = k"
    unfolding set_patternsData by blast
  have "fst kr = k"
    using group_of_fields(6) [OF kr] p by simp
  then show "k \<in> fst ` set (patternGroups dict pc)"
    using kr by blast
next
  assume "k \<in> fst ` set (patternGroups dict pc)"
  then obtain kr where kr: "kr \<in> set (patternGroups dict pc)" and f: "fst kr = k"
    by blast
  have "pattern (snd kr) = k"
    using group_of_fields(6) [OF kr] f by simp
  then show "\<exists>r \<in> set (patternsData (Some dict) (Some pc)). pattern r = k"
    unfolding set_patternsData using kr by blast
qed

text \<open>
  C1 (as the code has it). A vocabulary pattern gets a record if and only if its ends-side
  list or its starts-side list has at least 2 words. Every record has
  \<open>totalCount = endsCount + startsCount\<close>, hence \<open>totalCount \<ge> 2\<close>, and its two counts
  are the sizes of the two lookups of its pattern.
\<close>

theorem patternsData_retention:
  "(\<forall>r \<in> set (patternsData (Some dict) (Some pc)).
      totalCount r = endsCount r + startsCount r \<and> totalCount r \<ge> 2 \<and>
      (endsCount r \<ge> 2 \<or> startsCount r \<ge> 2) \<and>
      endsCount r = length (ends_of dict (pattern r)) \<and>
      startsCount r = length (starts_of dict (pattern r))) \<and>
   (\<forall>p \<in> fst ` set pc.
      (\<exists>r \<in> set (patternsData (Some dict) (Some pc)). pattern r = toLowerCase p)
        \<longleftrightarrow> (length (ends_of dict (toLowerCase p)) \<ge> 2 \<or> length (starts_of dict (toLowerCase p)) \<ge> 2))"
proof (intro conjI ballI)
  fix r assume "r \<in> set (patternsData (Some dict) (Some pc))"
  then obtain kr where kr: "kr \<in> set (patternGroups dict pc)" and r: "r = snd kr"
    unfolding set_patternsData by blast
  show "totalCount r = endsCount r + startsCount r" "totalCount r \<ge> 2"
    "endsCount r \<ge> 2 \<or> startsCount r \<ge> 2"
    "endsCount r = length (ends_of dict (pattern r))"
    "startsCount r = length (starts_of dict (pattern r))"
    unfolding r using group_of_fields [OF kr] by blast+
next
  fix p assume p: "p \<in> fst ` set pc"
  have "(\<exists>r \<in> set (patternsData (Some dict) (Some pc)). pattern r = toLowerCase p)
        \<longleftrightarrow> retained dict (toLowerCase p)"
    unfolding patternsData_has_pattern patternGroups_key_set using p by blast
  then show "(\<exists>r \<in> set (patternsData (Some dict) (Some pc)). pattern r = toLowerCase p)
        \<longleftrightarrow> (length (ends_of dict (toLowerCase p)) \<ge> 2 \<or> length (starts_of dict (toLowerCase p)) \<ge> 2)"
    by (simp only: retained_def)
qed

text \<open>
  With the words \<open>Running\<close>, \<open>jumping\<close>, \<open>abc\<close>, \<open>cab\<close> the pattern \<open>ING\<close> gets
  a record and the pattern \<open>ab\<close> gets none.
\<close>

theorem patternsData_retention_witness:
  "(\<exists>r \<in> set (patternsData (Some [''Running'', ''jumping'', ''abc'', ''cab''])
                                (Some [(''ING'', 3), (''ab'', 2)])).
      pattern r = ''ing'' \<and> totalCount r = endsCount r + startsCount r \<and> totalCount r \<ge> 2) \<and>
   \<not> (\<exists>r \<in> set (patternsData (Some [''Running'', ''jumping'', ''abc'', ''cab''])
                                  (Some [(''ING'', 3), (''ab'', 2)])).
      pattern r = ''ab'')"
proof -
  let ?D = "[''Running'', ''jumping'', ''abc'', ''cab'']"
  let ?V = "[(''ING'', 3), (''ab'', 2)] :: vocabulary"
  note t = patternsData_retention [of ?D ?V]
  have l1: "toLowerCase ''ING'' = ''ing''" and l2: "toLowerCase ''ab'' = ''ab''"
    by code_simp+
  have e1: "length (ends_of ?D ''ing'') \<ge> 2"
    by code_simp
  have e2: "\<not> (length (ends_of ?D ''ab'') \<ge> 2 \<or> length (starts_of ?D ''ab'') \<ge> 2)"
    by code_simp
  have "\<exists>r \<in> set (patternsData (Some ?D) (Some ?V)). pattern r = toLowerCase ''ING''"
    using t e1 by (simp add: l1)
  then obtain r where r: "r \<in> set (patternsData (Some ?D) (Some ?V))" "pattern r = ''ing''"
    unfolding l1 by blast
  have "totalCount r = endsCount r + startsCount r \<and> totalCount r \<ge> 2"
    using t r(1) by blast
  then have a: "\<exists>r \<in> set (patternsData (Some ?D) (Some ?V)).
      pattern r = ''ing'' \<and> totalCount r = endsCount r + startsCount r \<and> totalCount r \<ge> 2"
    using r by blast
  have b: "\<not> (\<exists>r \<in> set (patternsData (Some ?D) (Some ?V)). pattern r = toLowerCase ''ab'')"
    using t e2 by (simp add: l2)
  show ?thesis
    using a b unfolding l2 by blast
qed

text \<open>
  A sum of sizes of 2 is not enough: with the words \<open>abc\<close> and \<open>cab\<close> the pattern
  \<open>ab\<close> has one word on each side, and no record is produced.
\<close>

theorem patternsData_sum_counterexample:
  "''ab'' \<in> fst ` set [(''ab'', 2::int)] \<and>
   length (get_or_empty (endsMap (wordIndices (Some [''abc'', ''cab'']))) (toLowerCase ''ab'')) +
   length (get_or_empty (startsMap (wordIndices (Some [''abc'', ''cab'']))) (toLowerCase ''ab'')) \<ge> 2 \<and>
   patternsData (Some [''abc'', ''cab'']) (Some [(''ab'', 2)]) = []"
  by code_simp

text \<open>
  C5. The records are in non-decreasing order of \<open>totalCount\<close>, and the records of any one
  \<open>totalCount\<close> are in the order in which their patterns first occur in the vocabulary.
\<close>

theorem patternsData_sorted_stable:
  "sorted (map totalCount (patternsData (Some dict) (Some pc))) \<and>
   map pattern (filter (\<lambda>r. totalCount r = k) (patternsData (Some dict) (Some pc))) =
     filter (\<lambda>p. total_of dict p = k)
       (first_occurrences (filter (retained dict) (map toLowerCase (map fst pc))))"
proof
  show "sorted (map totalCount (patternsData (Some dict) (Some pc)))"
    unfolding patternsData_Some by (rule sorted_array_sort)
next
  have "map pattern (filter (\<lambda>r. totalCount r = k) (patternsData (Some dict) (Some pc))) =
        map pattern (filter (\<lambda>r. totalCount r = k) (map snd (patternGroups dict pc)))"
    unfolding patternsData_Some filter_array_sort ..
  also have "\<dots> = filter (\<lambda>p. total_of dict p = k) (map fst (patternGroups dict pc))"
    by (rule map_pattern_groups [OF patternGroups_groups])
  finally show "map pattern (filter (\<lambda>r. totalCount r = k) (patternsData (Some dict) (Some pc))) =
     filter (\<lambda>p. total_of dict p = k)
       (first_occurrences (filter (retained dict) (map toLowerCase (map fst pc))))"
    unfolding patternGroups_keys .
qed

text \<open>
  Three patterns, two of them with a total of 2: they come out in vocabulary order, ahead
  of the pattern with a total of 3 that the vocabulary lists first.
\<close>

theorem patternsData_sorted_stable_witness:
  "map pattern (filter (\<lambda>r. totalCount r = 2)
     (patternsData (Some [''efa'', ''efb'', ''efc'', ''cdx'', ''cdy'', ''abx'', ''aby''])
                   (Some [(''ef'', 2), (''cd'', 2), (''ab'', 2), (''CD'', 2)]))) = [''cd'', ''ab''] \<and>
   sorted (map totalCount
     (patternsData (Some [''efa'', ''efb'', ''efc'', ''cdx'', ''cdy'', ''abx'', ''aby''])
                   (Some [(''ef'', 2), (''cd'', 2), (''ab'', 2), (''CD'', 2)])))"
proof -
  let ?D = "[''efa'', ''efb'', ''efc'', ''cdx'', ''cdy'', ''abx'', ''aby'']"
  let ?V = "[(''ef'', 2), (''cd'', 2), (''ab'', 2), (''CD'', 2)] :: vocabulary"
  have e: "filter (\<lambda>p. total_of ?D p = 2)
             (first_occurrences (filter (retained ?D) (map toLowerCase (map fst ?V)))) = [''cd'', ''ab'']"
    by code_simp
  show ?thesis
    using patternsData_sorted_stable [of ?D ?V 2] unfolding e by simp
qed

section \<open>Properties of the drill set\<close>

lemma split_pattern_append:
  "split_pattern p patterns = patterns @ spec_ends_entry p @ spec_starts_entry p"
  by (simp add: split_pattern_def spec_ends_entry_def spec_starts_entry_def Let_def)

lemma fold_split_pattern:
  "fold split_pattern records patterns = patterns @ spec_drill_entries records"
  by (induction records arbitrary: patterns)
     (simp_all add: spec_drill_entries_def split_pattern_append)

lemma rarePatterns_filters:
  "rarePatterns records q tf =
     filter (\<lambda>e. trim q = [] \<or> matches_query (trim (toLowerCase q)) e)
       (filter (\<lambda>e. tf = ''all'' \<or> ptype e = tf) (spec_drill_entries records))"
  by (simp add: rarePatterns_def fold_split_pattern Let_def)

lemma matches_query_sides:
  "matches_query query e \<Longrightarrow>
     (ptype e = ''ends'' \<longrightarrow> endsWith (pattern e) query) \<and>
     (ptype e = ''starts'' \<longrightarrow> startsWith (pattern e) query)"
  by (simp add: matches_query_def split: if_splits)

text \<open>
  C6. With no side filter and a blank query the drill set is, record by record in the
  order of the input, the ENDS entry if \<open>endsCount\<close> is in \<open>[2,15]\<close> and \<open>length \<ge> 3\<close>
  followed by the STARTS entry if \<open>startsCount\<close> is in \<open>[2,15]\<close> and \<open>length \<ge> 3\<close>, and
  nothing else. A side filter and a query only remove entries from that sequence, and
  under a non-blank query every ENDS entry that remains has a pattern ending with the
  lower-cased trimmed query and every STARTS entry that remains has a pattern starting
  with it.
\<close>

theorem rarePatterns_drill_set:
  "(trim q = [] \<longrightarrow> rarePatterns records q ''all'' = spec_drill_entries records) \<and>
   rarePatterns records q tf =
     filter (\<lambda>e. trim q = [] \<or> matches_query (trim (toLowerCase q)) e)
       (filter (\<lambda>e. tf = ''all'' \<or> ptype e = tf) (spec_drill_entries records)) \<and>
   (trim q \<noteq> [] \<longrightarrow>
      (\<forall>e \<in> set (rarePatterns records q tf).
         (ptype e = ''ends'' \<longrightarrow> endsWith (pattern e) (trim (toLowerCase q))) \<and>
         (ptype e = ''starts'' \<longrightarrow> startsWith (pattern e) (trim (toLowerCase q)))))"
proof (intro conjI impI ballI)
  assume "trim q = []"
  then show "rarePatterns records q ''all'' = spec_drill_entries records"
    by (simp add: rarePatterns_filters)
next
  show "rarePatterns records q tf =
     filter (\<lambda>e. trim q = [] \<or> matches_query (trim (toLowerCase q)) e)
       (filter (\<lambda>e. tf = ''all'' \<or> ptype e = tf) (spec_drill_entries records))"
    by (rule rarePatterns_filters)
next
  fix e assume q: "trim q \<noteq> []" and e: "e \<in> set (rarePatterns records q tf)"
  have m: "matches_query (trim (toLowerCase q)) e"
    using q e by (simp add: rarePatterns_filters)
  { assume "ptype e = ''ends''"
    then show "endsWith (pattern e) (trim (toLowerCase q))"
      using matches_query_sides [OF m] by simp }
  { assume "ptype e = ''starts''"
    then show "startsWith (pattern e) (trim (toLowerCase q))"
      using matches_query_sides [OF m] by simp }
qed

text \<open>
  The record of \<open>ing\<close> with two words on each side: both entries without a query, the
  ENDS entry alone under the query \<open>NG\<close> typed with blanks around it.
\<close>

theorem rarePatterns_drill_set_witness:
  "trim '' NG '' \<noteq> [] \<and>
   rarePatterns
     [\<lparr>pattern = ''ing'', plength = 3, endsWords = [''Running'', ''jumping''], endsCount = 2,
       startsWords = [''ingot'', ''ingest''], startsCount = 2, totalCount = 4\<rparr>] '' NG '' ''all'' =
     [\<lparr>pattern = ''ing'', plength = 3, ptype = ''ends'', words = [''Running'', ''jumping''], count = 2\<rparr>] \<and>
   endsWith ''ing'' ''ng'' \<and>
   rarePatterns
     [\<lparr>pattern = ''ing'', plength = 3, endsWords = [''Running'', ''jumping''], endsCount = 2,
       startsWords = [''ingot'', ''ingest''], startsCount = 2, totalCount = 4\<rparr>] [] ''all'' =
     [\<lparr>pattern = ''ing'', plength = 3, ptype = ''ends'', words = [''Running'', ''jumping''], count = 2\<rparr>,
      \<lparr>pattern = ''ing'', plength = 3, ptype = ''starts'', words = [''ingot'', ''ingest''], count = 2\<rparr>]"
proof -
  let ?r = "\<lparr>pattern = ''ing'', plength = 3, endsWords = [''Running'', ''jumping''], endsCount = 2,
       startsWords = [''ingot'', ''ingest''], startsCount = 2, totalCount = 4\<rparr>"
  let ?E = "\<lparr>pattern = ''ing'', plength = 3, ptype = ''ends'', words = [''Running'', ''jumping''], count = 2\<rparr>"
  let ?S = "\<lparr>pattern = ''ing'', plength = 3, ptype = ''starts'', words = [''ingot'', ''ingest''], count = 2\<rparr>"
  have t: "trim '' NG '' \<noteq> []" by code_simp
  have t0: "trim [] = []" by code_simp
  have q: "trim (toLowerCase '' NG '') = ''ng''" by code_simp
  have s: "spec_drill_entries [?r] = [?E, ?S]" by code_simp
  have f: "filter (\<lambda>e. trim '' NG '' = [] \<or> matches_query (trim (toLowerCase '' NG '')) e)
       (filter (\<lambda>e. ''all'' = ''all'' \<or> ptype e = ''all'') (spec_drill_entries [?r])) = [?E]"
    by code_simp
  have a: "rarePatterns [?r] '' NG '' ''all'' = [?E]"
    using rarePatterns_drill_set [of "'' NG ''" "[?r]" "''all''"] unfolding f by simp
  have b: "endsWith ''ing'' ''ng''"
    using rarePatterns_drill_set [of "'' NG ''" "[?r]" "''all''"] t unfolding a q by simp
  have c: "rarePatterns [?r] [] ''all'' = [?E, ?S]"
    using rarePatterns_drill_set [of "[]" "[?r]" "''all''"] t0 unfolding s by simp
  show ?thesis using t a b c by simp
qed

section \<open>Properties of the session\<close>

text \<open>
  C8. Starting a session with an empty selection raises the alert and changes no field
  of the state; in particular \<open>isStudying\<close> stays as it was.
\<close>

theorem startStudy_empty_selection:
  "selectedPatterns s = [] \<longrightarrow>
     fst (startStudy mode s) \<noteq> None \<and> snd (startStudy mode s) = s \<and>
     isStudying (snd (startStudy mode s)) = isStudying s"
  by (simp add: startStudy_def)

text \<open>From the initial state, whose selection is empty, nothing starts.\<close>

theorem startStudy_empty_selection_witness:
  "selectedPatterns initial_state = [] \<and>
   fst (startStudy ''repeat'' initial_state) \<noteq> None \<and>
   snd (startStudy ''repeat'' initial_state) = initial_state \<and>
   \<not> isStudying (snd (startStudy ''repeat'' initial_state))"
proof -
  have e: "selectedPatterns initial_state = []" and i: "\<not> isStudying initial_state"
    by (simp_all add: initial_state_def)
  show ?thesis
    using startStudy_empty_selection [of initial_state "''repeat''"] e i by simp
qed

lemma currentChallenge_skipRepeatWord:
  "currentChallenge rare (skipRepeatWord s) = currentChallenge rare s"
  by (simp add: currentChallenge_def skipRepeatWord_def)

text \<open>
  C9 (as the code has it). A skip always moves \<open>currentWordIndex\<close> forward by one, resets
  \<open>repeatCount\<close> and \<open>hideWord\<close>, and leaves \<open>correctAnswers\<close> and \<open>totalAttempts\<close> alone.
  The handler has no test of its own for the end of the word list; the Skip button is
  only shown while \<open>currentWordIndex\<close> is below the length of the word list, so a skip made
  from the button ends at most at that length.
\<close>

theorem skipRepeatWord_advances:
  "currentWordIndex (skipRepeatWord s) = currentWordIndex s + 1 \<and>
   repeatCount (skipRepeatWord s) = 0 \<and> hideWord (skipRepeatWord s) = False \<and>
   correctAnswers (skipRepeatWord s) = correctAnswers s \<and>
   totalAttempts (skipRepeatWord s) = totalAttempts s \<and>
   (repeat_word_shown rare s \<longrightarrow>
      (\<exists>c. currentChallenge rare (skipRepeatWord s) = Some c \<and>
           currentWordIndex (skipRepeatWord s) \<le> length (words c)))"
proof -
  have f: "currentWordIndex (skipRepeatWord s) = currentWordIndex s + 1"
    "repeatCount (skipRepeatWord s) = 0" "hideWord (skipRepeatWord s) = False"
    "correctAnswers (skipRepeatWord s) = correctAnswers s"
    "totalAttempts (skipRepeatWord s) = totalAttempts s"
    by (simp_all add: skipRepeatWord_def)
  have "\<exists>c. currentChallenge rare (skipRepeatWord s) = Some c \<and>
           currentWordIndex (skipRepeatWord s) \<le> length (words c)"
    if "repeat_word_shown rare s"
    using that unfolding currentChallenge_skipRepeatWord f
    by (cases "currentChallenge rare s") (simp_all add: repeat_word_shown_def)
  then show ?thesis
    using f by blast
qed

text \<open>Skipping the second of the two words of the example leads to index 2.\<close>

theorem skipRepeatWord_advances_witness:
  "repeat_word_shown [example_challenge] (example_session\<lparr>currentWordIndex := 1\<rparr>) \<and>
   currentChallenge [example_challenge] (skipRepeatWord (example_session\<lparr>currentWordIndex := 1\<rparr>)) = Some example_challenge \<and>
   currentWordIndex (skipRepeatWord (example_session\<lparr>currentWordIndex := 1\<rparr>)) = 2"
proof -
  let ?s = "example_session\<lparr>currentWordIndex := 1\<rparr>"
  have c: "currentChallenge [example_challenge] ?s = Some example_challenge"
    by (simp add: currentChallenge_def example_session_def initial_state_def pattern_key_def example_challenge_def)
  have sh: "repeat_word_shown [example_challenge] ?s"
    unfolding repeat_word_shown_def c by (simp add: example_session_def example_challenge_def initial_state_def)
  have i: "currentWordIndex ?s = 1" by simp
  show ?thesis
    using skipRepeatWord_advances [of ?s "[example_challenge]"] sh c i
    by (simp add: currentChallenge_skipRepeatWord)
qed

text \<open>
  Called with \<open>currentWordIndex\<close> already at the length of the word list, the handler
  moves it to 3.
\<close>

theorem skipRepeatWord_at_end_counterexample:
  "currentChallenge [example_challenge] (example_session\<lparr>currentWordIndex := 2\<rparr>) = Some example_challenge \<and>
   currentWordIndex (example_session\<lparr>currentWordIndex := 2\<rparr>) = length (words example_challenge) \<and>
   currentWordIndex (skipRepeatWord (example_session\<lparr>currentWordIndex := 2\<rparr>)) = 3 \<and>
   currentWordIndex (skipRepeatWord (example_session\<lparr>currentWordIndex := 2\<rparr>))
     \<noteq> currentWordIndex (example_session\<lparr>currentWordIndex := 2\<rparr>)"
  by (simp add: currentChallenge_def example_session_def initial_state_def pattern_key_def example_challenge_def
        skipRepeatWord_def)

lemma score_invariant_checkAnswer:
  "score_invariant s \<Longrightarrow> score_invariant (checkAnswer rare s)"
  by (auto simp: score_invariant_def checkAnswer_def Let_def split: option.splits)

lemma score_invariant_checkRepeatWord:
  "score_invariant s \<Longrightarrow> checkRepeatWord rare s = Inr s' \<Longrightarrow> score_invariant s'"
  by (auto simp: score_invariant_def checkRepeatWord_def Let_def split: option.splits if_splits)

lemma score_invariant_step:
  "score_invariant s \<Longrightarrow> score_invariant (session_step rare ev s)"
proof (cases ev)
  case CheckAnswer
  assume "score_invariant s"
  then show ?thesis
    using CheckAnswer by (simp add: score_invariant_checkAnswer)
next
  case CheckRepeatWord
  assume "score_invariant s"
  then show ?thesis
    using CheckRepeatWord score_invariant_checkRepeatWord [of s rare]
    by (cases "checkRepeatWord rare s") simp_all
qed (auto simp: score_invariant_def togglePatternSelection_def selectAllRare_def startStudy_def
       setUserAnswer_def showAllWords_def skipRepeatWord_def nextChallenge_def resetStudy_def Let_def)

lemma score_invariant_fold:
  "score_invariant s \<Longrightarrow> score_invariant (fold (session_step rare) evs s)"
  by (induction evs arbitrary: s) (simp_all add: score_invariant_step)

lemma score_invariant_initial: "score_invariant initial_state"
  by (simp add: score_invariant_def initial_state_def)

lemma scorePercent_le:
  assumes "correctAnswers s \<le> totalAttempts s"
  shows "scorePercent s \<le> 100"
proof (cases "totalAttempts s > 0")
  case False
  then show ?thesis by (simp add: scorePercent_def)
next
  case True
  then have "real (correctAnswers s) / real (totalAttempts s) \<le> 1"
    using assms by simp
  then have "real (correctAnswers s) / real (totalAttempts s) * 100 \<le> 1 * 100"
    by (rule mult_right_mono) simp
  then have "real (correctAnswers s) / real (totalAttempts s) * 100 \<le> 100"
    by (simp only: mult_1)
  then have "round (real (correctAnswers s) / real (totalAttempts s) * 100) \<le> round (100::real)"
    by (rule round_mono)
  then show ?thesis
    using True by (simp add: scorePercent_def)
qed

text \<open>
  C10. Every event of a session keeps \<open>correctAnswers \<le> totalAttempts\<close> and
  \<open>foundWords \<subseteq> attemptedWords\<close>; both hold in every state reached from the initial one,
  and with them the percentage of the score line is at most 100.
\<close>

theorem session_score_invariant:
  "(score_invariant s \<longrightarrow> score_invariant (session_step rare ev s)) \<and>
   score_invariant (fold (session_step rare) evs initial_state) \<and>
   (score_invariant s \<longrightarrow> scorePercent s \<le> 100)"
  using score_invariant_step [of s rare ev]
    score_invariant_fold [OF score_invariant_initial, of rare evs]
    scorePercent_le [of s]
  by (simp add: score_invariant_def)

text \<open>
  A run that selects the example pattern, starts the find-words protocol and submits
  a right and a wrong guess; then the words are revealed.
\<close>

theorem session_score_invariant_witness:
  "score_invariant (fold (session_step [example_challenge]) example_events initial_state) \<and>
   correctAnswers (fold (session_step [example_challenge]) example_events initial_state) = 1 \<and>
   totalAttempts (fold (session_step [example_challenge]) example_events initial_state) = 2 \<and>
   score_invariant (session_step [example_challenge] ShowAllWords
      (fold (session_step [example_challenge]) example_events initial_state)) \<and>
   scorePercent (fold (session_step [example_challenge]) example_events initial_state) \<le> 100"
proof -
  let ?s = "fold (session_step [example_challenge]) example_events initial_state"
  have c: "correctAnswers ?s = 1" by code_simp
  have t: "totalAttempts ?s = 2" by code_simp
  show ?thesis
    using session_score_invariant [of ?s "[example_challenge]" ShowAllWords example_events] c t
    by blast
qed

section \<open>Properties of the find-words protocol\<close>

lemma of_char_lower_char:
  "(of_char (lower_char c) :: nat) =
     (if 65 \<le> (of_char c :: nat) \<and> (of_char c :: nat) \<le> 90 then of_char c + 32 else of_char c)"
  by (simp add: lower_char_def Let_def)

lemma is_space_lower_char: "is_space (lower_char c) = is_space c"
  by (auto simp: is_space_def Let_def of_char_lower_char)

lemma dropWhile_space_lower:
  "dropWhile is_space (map lower_char s) = map lower_char (dropWhile is_space s)"
  by (induction s) (simp_all add: is_space_lower_char)

lemma trim_toLowerCase: "trim (toLowerCase s) = toLowerCase (trim s)"
  by (simp add: trim_def toLowerCase_def dropWhile_space_lower rev_map)

lemma toLowerCase_Nil: "toLowerCase s = [] \<longleftrightarrow> s = []"
  by (simp add: toLowerCase_def)

lemma fullWord_nonempty: "trim raw \<noteq> [] \<Longrightarrow> fullWord c raw \<noteq> []"
  by (simp add: fullWord_def Let_def trim_toLowerCase toLowerCase_Nil)

lemma truthy_find:
  assumes "fw \<noteq> []"
  shows "truthy (find (\<lambda>dictWord. toLowerCase dictWord = fw) ws) \<longleftrightarrow>
         (\<exists>w \<in> set ws. toLowerCase w = fw)"
proof (cases "find (\<lambda>dictWord. toLowerCase dictWord = fw) ws")
  case None
  then have "\<not> (\<exists>w \<in> set ws. toLowerCase w = fw)"
    by (auto simp: find_None_iff)
  moreover have "\<not> truthy (find (\<lambda>dictWord. toLowerCase dictWord = fw) ws)"
    unfolding None by (simp add: truthy_def)
  ultimately show ?thesis by blast
next
  case (Some w)
  then have "w \<in> set ws" and "toLowerCase w = fw"
    by (auto simp: find_Some_iff)
  moreover from this assms have "w \<noteq> []"
    by (auto simp: toLowerCase_def)
  ultimately show ?thesis
    using Some by (auto simp: truthy_def)
qed

lemma currentChallenge_setUserAnswer:
  "currentChallenge rare (setUserAnswer v s) = currentChallenge rare s"
  by (simp add: currentChallenge_def setUserAnswer_def)

lemma submitGuess_attempted:
  assumes "currentChallenge rare s = Some c" and "trim raw \<noteq> []"
    and "fullWord c raw \<in> attemptedWords s"
  shows "submitGuess rare raw s = s\<lparr>userAnswer := []\<rparr>"
proof -
  have "currentChallenge rare (setUserAnswer raw s) = Some c"
    using assms(1) by (simp add: currentChallenge_setUserAnswer)
  then show ?thesis
    using assms(2,3) by (simp add: submitGuess_def checkAnswer_def) (simp add: setUserAnswer_def)
qed

lemma submitGuess_new:
  assumes "currentChallenge rare s = Some c" and "trim raw \<noteq> []"
    and "fullWord c raw \<notin> attemptedWords s"
  shows "submitGuess rare raw s =
    (if valid_guess c raw \<and> fullWord c raw \<notin> foundWords s
     then s\<lparr>attemptedWords := insert (fullWord c raw) (attemptedWords s),
            foundWords := insert (fullWord c raw) (foundWords s),
            correctAnswers := correctAnswers s + 1,
            totalAttempts := totalAttempts s + 1, userAnswer := []\<rparr>
     else s\<lparr>attemptedWords := insert (fullWord c raw) (attemptedWords s),
            totalAttempts := totalAttempts s + 1, userAnswer := []\<rparr>)"
proof -
  have cc: "currentChallenge rare (setUserAnswer raw s) = Some c"
    using assms(1) by (simp add: currentChallenge_setUserAnswer)
  have tr: "truthy (find (\<lambda>dictWord. toLowerCase dictWord = fullWord c raw) (words c)) = valid_guess c raw"
    using truthy_find [OF fullWord_nonempty [OF assms(2)], of c "words c"] assms(2)
    by (simp add: valid_guess_def)
  show ?thesis
    unfolding submitGuess_def checkAnswer_def cc
    using assms(2,3) by (simp add: Let_def tr setUserAnswer_def)
qed

lemma checkAnswer_selection:
  "isStudying (checkAnswer rare s) = isStudying s"
  "selectedPatterns (checkAnswer rare s) = selectedPatterns s"
  "currentChallengeIndex (checkAnswer rare s) = currentChallengeIndex s"
  by (simp_all add: checkAnswer_def Let_def split: option.splits)

lemma currentChallenge_checkAnswer:
  "currentChallenge rare' (checkAnswer rare s) = currentChallenge rare' s"
  unfolding currentChallenge_def checkAnswer_selection ..

lemma currentChallenge_submitGuess:
  "currentChallenge rare (submitGuess rare raw s) = currentChallenge rare s"
  by (simp add: submitGuess_def currentChallenge_checkAnswer currentChallenge_setUserAnswer)

lemma submitGuesses_Cons:
  "submitGuesses rare (raw # raws) s = submitGuesses rare raws (submitGuess rare raw s)"
  by (simp add: submitGuesses_def)

lemma submitGuesses_valid:
  assumes "currentChallenge rare s = Some c"
    and "\<forall>raw \<in> set raws. valid_guess c raw \<and> fullWord c raw \<notin> attemptedWords s"
    and "distinct (map (fullWord c) raws)"
    and "foundWords s \<subseteq> attemptedWords s"
  shows "correctAnswers (submitGuesses rare raws s) = correctAnswers s + length raws"
  using assms
proof (induction raws arbitrary: s)
  case Nil
  then show ?case by (simp add: submitGuesses_def)
next
  case (Cons raw raws)
  let ?s = "submitGuess rare raw s"
  have v: "valid_guess c raw" and na: "fullWord c raw \<notin> attemptedWords s"
    using Cons.prems(2) by simp_all
  have nf: "fullWord c raw \<notin> foundWords s"
    using na Cons.prems(4) by blast
  have tr: "trim raw \<noteq> []"
    using v by (simp add: valid_guess_def)
  have step: "?s = s\<lparr>attemptedWords := insert (fullWord c raw) (attemptedWords s),
            foundWords := insert (fullWord c raw) (foundWords s),
            correctAnswers := correctAnswers s + 1,
            totalAttempts := totalAttempts s + 1, userAnswer := []\<rparr>"
    using submitGuess_new [OF Cons.prems(1) tr na] v nf by simp
  have cc: "currentChallenge rare ?s = Some c"
    using Cons.prems(1) by (simp add: currentChallenge_submitGuess)
  have fresh: "fullWord c raw \<notin> fullWord c ` set raws"
    using Cons.prems(3) by simp
  have rest: "\<forall>r \<in> set raws. valid_guess c r \<and> fullWord c r \<notin> attemptedWords ?s"
  proof
    fix r assume r: "r \<in> set raws"
    then have "fullWord c r \<noteq> fullWord c raw"
      using fresh by (metis imageI)
    then show "valid_guess c r \<and> fullWord c r \<notin> attemptedWords ?s"
      using Cons.prems(2) r unfolding step by simp
  qed
  have d: "distinct (map (fullWord c) raws)"
    using Cons.prems(3) by simp
  have sub: "foundWords ?s \<subseteq> attemptedWords ?s"
    using Cons.prems(4) unfolding step by auto
  have "correctAnswers (submitGuesses rare raws ?s) = correctAnswers ?s + length raws"
    by (rule Cons.IH [OF cc rest d sub])
  also have "correctAnswers ?s = correctAnswers s + 1"
    unfolding step by simp
  finally show ?case
    by (simp add: submitGuesses_Cons)
qed

text \<open>
  C3. With a resolved challenge, a non-blank guess whose candidate is already in
  \<open>attemptedWords\<close> changes no counter and no set (only the answer field is cleared);
  submitting the same candidate twice, not attempted before, increments \<open>totalAttempts\<close>
  once; and submitting N guesses with distinct candidates that match words of the
  challenge and were not attempted before raises \<open>correctAnswers\<close> by N, in whatever order
  they are submitted.
\<close>

theorem checkAnswer_find_words:
  assumes "currentChallenge rare s = Some c"
  shows
  "(trim raw \<noteq> [] \<and> fullWord c raw \<in> attemptedWords s \<longrightarrow>
      submitGuess rare raw s = s\<lparr>userAnswer := []\<rparr>) \<and>
   (trim raw \<noteq> [] \<and> trim raw' \<noteq> [] \<and> fullWord c raw' = fullWord c raw \<and>
    fullWord c raw \<notin> attemptedWords s \<longrightarrow>
      totalAttempts (submitGuess rare raw s) = totalAttempts s + 1 \<and>
      totalAttempts (submitGuess rare raw' (submitGuess rare raw s)) = totalAttempts s + 1) \<and>
   ((\<forall>r \<in> set raws. valid_guess c r \<and> fullWord c r \<notin> attemptedWords s) \<and>
    distinct (map (fullWord c) raws) \<and> foundWords s \<subseteq> attemptedWords s \<longrightarrow>
      correctAnswers (submitGuesses rare raws s) = correctAnswers s + length raws \<and>
      (\<forall>raws'. distinct raws' \<and> set raws' = set raws \<longrightarrow>
         correctAnswers (submitGuesses rare raws' s) = correctAnswers s + length raws))"
proof (intro conjI impI allI)
  assume "trim raw \<noteq> [] \<and> fullWord c raw \<in> attemptedWords s"
  then show "submitGuess rare raw s = s\<lparr>userAnswer := []\<rparr>"
    using submitGuess_attempted [OF assms] by blast
next
  assume h: "trim raw \<noteq> [] \<and> trim raw' \<noteq> [] \<and> fullWord c raw' = fullWord c raw \<and>
    fullWord c raw \<notin> attemptedWords s"
  let ?s = "submitGuess rare raw s"
  have t1: "totalAttempts ?s = totalAttempts s + 1"
    and a1: "attemptedWords ?s = insert (fullWord c raw) (attemptedWords s)"
    using submitGuess_new [OF assms, of raw] h by (simp_all split: if_splits)
  show "totalAttempts ?s = totalAttempts s + 1" by (rule t1)
  have cc: "currentChallenge rare ?s = Some c"
    using assms by (simp add: currentChallenge_submitGuess)
  have "fullWord c raw' \<in> attemptedWords ?s"
    using h a1 by simp
  then have "submitGuess rare raw' ?s = ?s\<lparr>userAnswer := []\<rparr>"
    using submitGuess_attempted [OF cc, of raw'] h by blast
  then show "totalAttempts (submitGuess rare raw' ?s) = totalAttempts s + 1"
    using t1 by simp
next
  assume h: "(\<forall>r \<in> set raws. valid_guess c r \<and> fullWord c r \<notin> attemptedWords s) \<and>
    distinct (map (fullWord c) raws) \<and> foundWords s \<subseteq> attemptedWords s"
  then show "correctAnswers (submitGuesses rare raws s) = correctAnswers s + length raws"
    using submitGuesses_valid [OF assms, of raws] by blast
next
  fix raws'
  assume h: "(\<forall>r \<in> set raws. valid_guess c r \<and> fullWord c r \<notin> attemptedWords s) \<and>
    distinct (map (fullWord c) raws) \<and> foundWords s \<subseteq> attemptedWords s"
    and p: "distinct raws' \<and> set raws' = set raws"
  have inj: "inj_on (fullWord c) (set raws)" and dr: "distinct raws"
    using h by (simp_all add: distinct_map)
  have d': "distinct (map (fullWord c) raws')"
    using p inj by (simp add: distinct_map)
  have len: "length raws' = length raws"
    using p dr by (metis distinct_card)
  have "correctAnswers (submitGuesses rare raws' s) = correctAnswers s + length raws'"
    using submitGuesses_valid [OF assms, of raws'] h p d' by simp
  then show "correctAnswers (submitGuesses rare raws' s) = correctAnswers s + length raws"
    using len by simp
qed

text \<open>
  The example pattern in the find-words protocol: \<open>Runn\<close> and \<open>JUMP\<close> in both orders,
  and \<open>Runn\<close> submitted again in other spellings.
\<close>

theorem checkAnswer_find_words_witness:
  "currentChallenge [example_challenge] example_find_session = Some example_challenge \<and>
   correctAnswers (submitGuesses [example_challenge] [''Runn'', '' JUMP ''] example_find_session) = 2 \<and>
   correctAnswers (submitGuesses [example_challenge] ['' JUMP '', ''Runn''] example_find_session) = 2 \<and>
   totalAttempts (submitGuess [example_challenge] '' RUNN''
     (submitGuess [example_challenge] ''Runn'' example_find_session)) = 1 \<and>
   submitGuess [example_challenge] ''runn''
     (submitGuess [example_challenge] ''Runn'' example_find_session) =
     (submitGuess [example_challenge] ''Runn'' example_find_session)\<lparr>userAnswer := []\<rparr>"
proof -
  let ?rare = "[example_challenge]"
  let ?c = example_challenge
  let ?s = example_find_session
  let ?s1 = "submitGuess ?rare ''Runn'' ?s"
  have cc: "currentChallenge ?rare ?s = Some ?c" by code_simp
  have cc1: "currentChallenge ?rare ?s1 = Some ?c" by code_simp
  have z: "correctAnswers ?s = 0" "totalAttempts ?s = 0" by code_simp+
  have e: "attemptedWords ?s = {}" "foundWords ?s = {}"
    by (simp_all add: example_find_session_def startStudy_def togglePatternSelection_def
          initial_state_def)
  have v: "valid_guess ?c ''Runn''" "valid_guess ?c '' JUMP ''" by code_simp+
  have d: "distinct (map (fullWord ?c) [''Runn'', '' JUMP ''])" by code_simp
  have t: "trim ''Runn'' \<noteq> []" "trim '' RUNN'' \<noteq> []" "trim ''runn'' \<noteq> []" by code_simp+
  have f: "fullWord ?c '' RUNN'' = fullWord ?c ''Runn''" by code_simp
  have a1: "fullWord ?c ''runn'' \<in> attemptedWords ?s1" by code_simp
  have p: "distinct ['' JUMP '', ''Runn''] \<and> set ['' JUMP '', ''Runn''] = set [''Runn'', '' JUMP '']"
    by auto
  note w = checkAnswer_find_words [OF cc, of "''Runn''" "'' RUNN''" "[''Runn'', '' JUMP '']"]
  have n2: "correctAnswers (submitGuesses ?rare [''Runn'', '' JUMP ''] ?s) = 2"
    using w v d e z by simp
  have n2': "correctAnswers (submitGuesses ?rare ['' JUMP '', ''Runn''] ?s) = 2"
    using w v d e z p by simp
  have once: "totalAttempts (submitGuess ?rare '' RUNN'' ?s1) = 1"
    using w t f e z by simp
  have idem: "submitGuess ?rare ''runn'' ?s1 = ?s1\<lparr>userAnswer := []\<rparr>"
    using checkAnswer_find_words [OF cc1, of "''runn''"] t a1 by blast
  show ?thesis
    using cc n2 n2' once idem by blast
qed

section \<open>Properties of the repeat-after-me protocol\<close>

lemma submitRepeat_step:
  assumes "currentChallenge rare s = Some c" and "currentWordIndex s < length (words c)"
    and "trim raw \<noteq> []"
  shows "submitRepeat rare raw s =
    Inr (if toLowerCase (trim raw) = toLowerCase (words c ! currentWordIndex s)
         then (if hideWord s
               then s\<lparr>currentWordIndex := currentWordIndex s + 1, repeatCount := 0,
                      hideWord := False, correctAnswers := correctAnswers s + 1,
                      totalAttempts := totalAttempts s + 1, userAnswer := []\<rparr>
               else if repeatCount s + 1 \<ge> 3
               then s\<lparr>hideWord := True, repeatCount := 0,
                      totalAttempts := totalAttempts s + 1, userAnswer := []\<rparr>
               else s\<lparr>repeatCount := repeatCount s + 1,
                      totalAttempts := totalAttempts s + 1, userAnswer := []\<rparr>)
         else s\<lparr>totalAttempts := totalAttempts s + 1, userAnswer := []\<rparr>)"
proof -
  have cc: "currentChallenge rare (setUserAnswer raw s) = Some c"
    using assms(1) by (simp add: currentChallenge_setUserAnswer)
  show ?thesis
    unfolding submitRepeat_def checkRepeatWord_def cc
    using assms(2,3) by (simp add: Let_def setUserAnswer_def)
qed

lemma currentChallenge_counters:
  "currentChallenge rare (s\<lparr>repeatCount := r, totalAttempts := t, userAnswer := u\<rparr>) =
   currentChallenge rare s"
  by (simp add: currentChallenge_def)

lemma submitRepeats_three:
  assumes cc: "currentChallenge rare s = Some c" and i: "currentWordIndex s < length (words c)"
    and v: "\<not> hideWord s" "repeatCount s = 0"
    and r: "correct_for c s r1" "correct_for c s r2" "correct_for c s r3"
  shows "submitRepeats rare [r1] s =
           Inr (s\<lparr>repeatCount := 1, totalAttempts := totalAttempts s + 1, userAnswer := []\<rparr>)"
    and "submitRepeats rare [r1, r2] s =
           Inr (s\<lparr>repeatCount := 2, totalAttempts := totalAttempts s + 2, userAnswer := []\<rparr>)"
    and "submitRepeats rare [r1, r2, r3] s =
           Inr (s\<lparr>hideWord := True, repeatCount := 0, totalAttempts := totalAttempts s + 3,
                  userAnswer := []\<rparr>)"
proof -
  let ?s1 = "s\<lparr>repeatCount := 1, totalAttempts := totalAttempts s + 1, userAnswer := []\<rparr>"
  let ?s2 = "s\<lparr>repeatCount := 2, totalAttempts := totalAttempts s + 2, userAnswer := []\<rparr>"
  have a: "submitRepeat rare r1 s = Inr ?s1"
    using submitRepeat_step [OF cc i, of r1] v r(1) by (simp add: correct_for_def)
  have cc1: "currentChallenge rare ?s1 = Some c" and i1: "currentWordIndex ?s1 < length (words c)"
    using cc i by (simp_all add: currentChallenge_counters)
  have b: "submitRepeat rare r2 ?s1 = Inr ?s2"
    using submitRepeat_step [OF cc1 i1, of r2] v r(2) by (simp add: correct_for_def)
  have cc2: "currentChallenge rare ?s2 = Some c" and i2: "currentWordIndex ?s2 < length (words c)"
    using cc i by (simp_all add: currentChallenge_counters)
  have c: "submitRepeat rare r3 ?s2 =
      Inr (s\<lparr>hideWord := True, repeatCount := 0, totalAttempts := totalAttempts s + 3,
             userAnswer := []\<rparr>)"
    using submitRepeat_step [OF cc2 i2, of r3] v r(3) by (simp add: correct_for_def)
  show "submitRepeats rare [r1] s = Inr ?s1"
    by (simp only: submitRepeats.simps a sum.case)
  show "submitRepeats rare [r1, r2] s = Inr ?s2"
    by (simp only: submitRepeats.simps a b sum.case)
  show "submitRepeats rare [r1, r2, r3] s =
           Inr (s\<lparr>hideWord := True, repeatCount := 0, totalAttempts := totalAttempts s + 3,
                  userAnswer := []\<rparr>)"
    by (simp only: submitRepeats.simps a b c sum.case)
qed

text \<open>
  C2 (as the code has it). For a resolved challenge and a word index within its word
  list: while the word is visible, a correct submission (case-insensitive, trimmed)
  increments \<open>repeatCount\<close>, and the one that brings it to 3 sets \<open>hideWord\<close> and resets
  \<open>repeatCount\<close> to 0, so that from a count of 0 the word is still visible after one and
  after two correct submissions and hidden after the third; while the word is hidden, a
  correct submission advances \<open>currentWordIndex\<close> by 1, resets \<open>repeatCount\<close> and \<open>hideWord\<close>
  and increments \<open>correctAnswers\<close> by 1; every non-blank submission increments
  \<open>totalAttempts\<close> by 1, and an incorrect one changes nothing else but the answer field,
  which every submission clears. An incorrect submission therefore does not restart
  the count of repetitions.
\<close>

theorem checkRepeatWord_protocol:
  assumes "currentChallenge rare s = Some c" and "currentWordIndex s < length (words c)"
  shows
  "(correct_for c s raw \<and> \<not> hideWord s \<and> repeatCount s + 1 < 3 \<longrightarrow>
      submitRepeat rare raw s =
        Inr (s\<lparr>repeatCount := repeatCount s + 1,
               totalAttempts := totalAttempts s + 1, userAnswer := []\<rparr>)) \<and>
   (correct_for c s raw \<and> \<not> hideWord s \<and> repeatCount s + 1 \<ge> 3 \<longrightarrow>
      submitRepeat rare raw s =
        Inr (s\<lparr>hideWord := True, repeatCount := 0,
               totalAttempts := totalAttempts s + 1, userAnswer := []\<rparr>)) \<and>
   (correct_for c s raw \<and> hideWord s \<longrightarrow>
      submitRepeat rare raw s =
        Inr (s\<lparr>currentWordIndex := currentWordIndex s + 1, repeatCount := 0,
               hideWord := False, correctAnswers := correctAnswers s + 1,
               totalAttempts := totalAttempts s + 1, userAnswer := []\<rparr>)) \<and>
   (trim raw \<noteq> [] \<and> \<not> correct_for c s raw \<longrightarrow>
      submitRepeat rare raw s =
        Inr (s\<lparr>totalAttempts := totalAttempts s + 1, userAnswer := []\<rparr>)) \<and>
   (\<not> hideWord s \<and> repeatCount s = 0 \<and>
    correct_for c s r1 \<and> correct_for c s r2 \<and> correct_for c s r3 \<longrightarrow>
      submitRepeats rare [r1] s =
        Inr (s\<lparr>repeatCount := 1, totalAttempts := totalAttempts s + 1, userAnswer := []\<rparr>) \<and>
      submitRepeats rare [r1, r2] s =
        Inr (s\<lparr>repeatCount := 2, totalAttempts := totalAttempts s + 2, userAnswer := []\<rparr>) \<and>
      submitRepeats rare [r1, r2, r3] s =
        Inr (s\<lparr>hideWord := True, repeatCount := 0, totalAttempts := totalAttempts s + 3,
               userAnswer := []\<rparr>))"
proof (intro conjI impI)
  assume "correct_for c s raw \<and> \<not> hideWord s \<and> repeatCount s + 1 < 3"
  then show "submitRepeat rare raw s =
        Inr (s\<lparr>repeatCount := repeatCount s + 1,
               totalAttempts := totalAttempts s + 1, userAnswer := []\<rparr>)"
    using submitRepeat_step [OF assms, of raw] by (simp add: correct_for_def)
next
  assume "correct_for c s raw \<and> \<not> hideWord s \<and> repeatCount s + 1 \<ge> 3"
  then show "submitRepeat rare raw s =
        Inr (s\<lparr>hideWord := True, repeatCount := 0,
               totalAttempts := totalAttempts s + 1, userAnswer := []\<rparr>)"
    using submitRepeat_step [OF assms, of raw] by (simp add: correct_for_def)
next
  assume "correct_for c s raw \<and> hideWord s"
  then show "submitRepeat rare raw s =
        Inr (s\<lparr>currentWordIndex := currentWordIndex s + 1, repeatCount := 0,
               hideWord := False, correctAnswers := correctAnswers s + 1,
               totalAttempts := totalAttempts s + 1, userAnswer := []\<rparr>)"
    using submitRepeat_step [OF assms, of raw] by (simp add: correct_for_def)
next
  assume h: "trim raw \<noteq> [] \<and> \<not> correct_for c s raw"
  then have "toLowerCase (trim raw) \<noteq> toLowerCase (words c ! currentWordIndex s)"
    unfolding correct_for_def by blast
  then show "submitRepeat rare raw s =
        Inr (s\<lparr>totalAttempts := totalAttempts s + 1, userAnswer := []\<rparr>)"
    using submitRepeat_step [OF assms, of raw] h by simp
next
  assume h: "\<not> hideWord s \<and> repeatCount s = 0 \<and>
    correct_for c s r1 \<and> correct_for c s r2 \<and> correct_for c s r3"
  then have v: "\<not> hideWord s" "repeatCount s = 0"
    and r: "correct_for c s r1" "correct_for c s r2" "correct_for c s r3"
    by simp_all
  show "submitRepeats rare [r1] s =
        Inr (s\<lparr>repeatCount := 1, totalAttempts := totalAttempts s + 1, userAnswer := []\<rparr>)"
    by (rule submitRepeats_three(1) [OF assms v r])
  show "submitRepeats rare [r1, r2] s =
        Inr (s\<lparr>repeatCount := 2, totalAttempts := totalAttempts s + 2, userAnswer := []\<rparr>)"
    by (rule submitRepeats_three(2) [OF assms v r])
  show "submitRepeats rare [r1, r2, r3] s =
        Inr (s\<lparr>hideWord := True, repeatCount := 0, totalAttempts := totalAttempts s + 3,
               userAnswer := []\<rparr>)"
    by (rule submitRepeats_three(3) [OF assms v r])
qed

text \<open>
  The first word of the example, \<open>Running\<close>: one correct submission at a count of 0, at
  a count of 2 and with the word hidden, an incorrect one, and three correct ones in a row.
\<close>

theorem checkRepeatWord_protocol_witness:
  "currentChallenge [example_challenge] example_session = Some example_challenge \<and>
   currentWordIndex example_session < length (words example_challenge) \<and>
   submitRepeat [example_challenge] ''running'' example_session =
     Inr (example_session\<lparr>repeatCount := 1, totalAttempts := 1, userAnswer := []\<rparr>) \<and>
   submitRepeat [example_challenge] ''running'' (example_session\<lparr>repeatCount := 2\<rparr>) =
     Inr (example_session\<lparr>hideWord := True, repeatCount := 0, totalAttempts := 1,
                          userAnswer := []\<rparr>) \<and>
   submitRepeat [example_challenge] ''running'' (example_session\<lparr>hideWord := True\<rparr>) =
     Inr (example_session\<lparr>currentWordIndex := 1, repeatCount := 0, hideWord := False,
                          correctAnswers := 1, totalAttempts := 1, userAnswer := []\<rparr>) \<and>
   submitRepeat [example_challenge] ''walking'' example_session =
     Inr (example_session\<lparr>totalAttempts := 1, userAnswer := []\<rparr>) \<and>
   submitRepeats [example_challenge] [''running'', '' RUNNING '', ''Running''] example_session =
     Inr (example_session\<lparr>hideWord := True, repeatCount := 0, totalAttempts := 3,
                          userAnswer := []\<rparr>)"
proof -
  let ?rare = "[example_challenge]"
  let ?c = example_challenge
  let ?s = example_session
  let ?s2 = "example_session\<lparr>repeatCount := 2\<rparr>"
  let ?sh = "example_session\<lparr>hideWord := True\<rparr>"
  have cc: "currentChallenge ?rare ?s = Some ?c" by code_simp
  have cc2: "currentChallenge ?rare ?s2 = Some ?c" by code_simp
  have cch: "currentChallenge ?rare ?sh = Some ?c" by code_simp
  have i: "currentWordIndex ?s < length (words ?c)" by code_simp
  have i2: "currentWordIndex ?s2 < length (words ?c)" by code_simp
  have ih: "currentWordIndex ?sh < length (words ?c)" by code_simp
  have f: "\<not> hideWord ?s" "repeatCount ?s = 0" "totalAttempts ?s = 0" "correctAnswers ?s = 0"
    "currentWordIndex ?s = 0"
    by (simp_all add: example_session_def initial_state_def)
  have r: "correct_for ?c ?s ''running''" "correct_for ?c ?s '' RUNNING ''"
    "correct_for ?c ?s ''Running''" "correct_for ?c ?s2 ''running''"
    "correct_for ?c ?sh ''running''"
    by code_simp+
  have w: "trim ''walking'' \<noteq> []" "\<not> correct_for ?c ?s ''walking''"
    by code_simp+
  have a: "submitRepeat ?rare ''running'' ?s =
      Inr (?s\<lparr>repeatCount := 1, totalAttempts := 1, userAnswer := []\<rparr>)"
    using checkRepeatWord_protocol [OF cc i, of "''running''"] r f by simp
  have b: "submitRepeat ?rare ''running'' ?s2 =
      Inr (?s\<lparr>hideWord := True, repeatCount := 0, totalAttempts := 1, userAnswer := []\<rparr>)"
    using checkRepeatWord_protocol [OF cc2 i2, of "''running''"] r f by simp
  have c: "submitRepeat ?rare ''running'' ?sh =
      Inr (?s\<lparr>currentWordIndex := 1, repeatCount := 0, hideWord := False,
             correctAnswers := 1, totalAttempts := 1, userAnswer := []\<rparr>)"
    using checkRepeatWord_protocol [OF cch ih, of "''running''"] r f by simp
  have d: "submitRepeat ?rare ''walking'' ?s = Inr (?s\<lparr>totalAttempts := 1, userAnswer := []\<rparr>)"
    using checkRepeatWord_protocol [OF cc i, of "''walking''"] w f by simp
  have e: "submitRepeats ?rare [''running'', '' RUNNING '', ''Running''] ?s =
      Inr (?s\<lparr>hideWord := True, repeatCount := 0, totalAttempts := 3, userAnswer := []\<rparr>)"
    using checkRepeatWord_protocol
            [OF cc i, of "''running''" "''running''" "'' RUNNING ''" "''Running''"] r(1-3) f(1,2)
    unfolding f(3) by (simp del: submitRepeats.simps)
  show ?thesis
    using cc i a b c d e by blast
qed

text \<open>
  The three correct submissions need not be consecutive: after \<open>running\<close>, the wrong
  \<open>walking\<close> and \<open>running\<close> twice more the word is hidden, although the last three
  submissions include the wrong one.
\<close>

theorem checkRepeatWord_not_consecutive_counterexample:
  "currentChallenge [example_challenge] example_session = Some example_challenge \<and>
   \<not> hideWord example_session \<and> repeatCount example_session = 0 \<and>
   correct_for example_challenge example_session ''running'' \<and>
   \<not> correct_for example_challenge example_session ''walking'' \<and>
   submitRepeats [example_challenge] [''running'', ''walking''] example_session =
     Inr (example_session\<lparr>repeatCount := 1, totalAttempts := 2, userAnswer := []\<rparr>) \<and>
   submitRepeats [example_challenge] [''running'', ''walking'', ''running''] example_session =
     Inr (example_session\<lparr>repeatCount := 2, totalAttempts := 3, userAnswer := []\<rparr>) \<and>
   submitRepeats [example_challenge] [''running'', ''walking'', ''running'', ''running'']
       example_session =
     Inr (example_session\<lparr>hideWord := True, repeatCount := 0, totalAttempts := 4,
                          userAnswer := []\<rparr>)"
  by code_simp

end
